theory Spec2Isabelle
  imports Main
begin

section \<open>Strings\<close>

text \<open>
  Python's \<^verbatim>\<open>sep.join(parts)\<close>, \<^verbatim>\<open>sub in s\<close> on strings,
  \<^verbatim>\<open>s.removesuffix(suffix)\<close> and \<^verbatim>\<open>s.strip()\<close>. Strings are lists of
  8-bit characters; the white space of \<^verbatim>\<open>str.isspace\<close> in that range is
  TAB, LF, VT, FF, CR, FS, GS, RS, US, SPACE, NEL (0x85) and NBSP (0xA0).
\<close>

fun join :: "string \<Rightarrow> string list \<Rightarrow> string" where
  "join sep [] = []"
| "join sep [p] = p"
| "join sep (p # q # ps) = p @ sep @ join sep (q # ps)"

fun startswith :: "string \<Rightarrow> string \<Rightarrow> bool" where
  "startswith s [] = True"
| "startswith [] (c # cs) = False"
| "startswith (d # ds) (c # cs) = (d = c \<and> startswith ds cs)"

fun contains :: "string \<Rightarrow> string \<Rightarrow> bool" where
  "contains [] sub = (sub = [])"
| "contains (c # cs) sub = (startswith (c # cs) sub \<or> contains cs sub)"

definition endswith :: "string \<Rightarrow> string \<Rightarrow> bool" where
  "endswith s suffix = startswith (rev s) (rev suffix)"

definition removesuffix :: "string \<Rightarrow> string \<Rightarrow> string" where
  "removesuffix s suffix =
     (if suffix \<noteq> [] \<and> endswith s suffix then take (length s - length suffix) s else s)"

definition isspace :: "char \<Rightarrow> bool" where
  "isspace c = (of_char c \<in> {9, 10, 11, 12, 13, 28, 29, 30, 31, 32, 133, 160 :: nat})"

definition lstrip :: "string \<Rightarrow> string" where
  "lstrip s = dropWhile isspace s"

definition rstrip :: "string \<Rightarrow> string" where
  "rstrip s = rev (dropWhile isspace (rev s))"

definition strip :: "string \<Rightarrow> string" where
  "strip s = rstrip (lstrip s)"

section \<open>Values, errors, log and driver events\<close>

text \<open>
  \<^verbatim>\<open>utils.py\<close>: the two enumerations. \<^verbatim>\<open>SelectorType\<close> is a \<^verbatim>\<open>StrEnum\<close>,
  whose \<^verbatim>\<open>str()\<close> is the member's value.
\<close>

datatype Status = PASSED | FAILED

datatype SelectorType = CSS | ID | XPATH

fun str_SelectorType :: "SelectorType \<Rightarrow> string" where
  "str_SelectorType CSS = ''css''"
| "str_SelectorType ID = ''id''"
| "str_SelectorType XPATH = ''xpath''"

text \<open>
  The exceptions that reach the engine's callers: the two the engine raises itself
  (\<^verbatim>\<open>ValueError\<close>, \<^verbatim>\<open>AssertionError\<close>), the driver's
  (\<^verbatim>\<open>playwright.sync_api.Error\<close>) and the HTTP client's
  (\<^verbatim>\<open>requests.RequestException\<close>). Each carries its message, which is what
  \<^verbatim>\<open>str(e)\<close> gives.
\<close>

datatype exn =
    ValueError string
  | AssertionError string
  | PlaywrightError string
  | RequestException string

fun str_exn :: "exn \<Rightarrow> string" where
  "str_exn (ValueError m) = m"
| "str_exn (AssertionError m) = m"
| "str_exn (PlaywrightError m) = m"
| "str_exn (RequestException m) = m"

text \<open>
  An argument of a wrapped call, as the reporter sees it: a \<^verbatim>\<open>pydantic.SecretStr\<close>
  holding its plaintext, or any other object, given by the text \<^verbatim>\<open>str()\<close>
  returns for it. \<^verbatim>\<open>str()\<close> of a \<^verbatim>\<open>SecretStr\<close> is pydantic's mask: ten
  asterisks for a non-empty secret, the empty string for an empty one.
\<close>

datatype arg = Plain string | SecretStr string

fun get_secret_value :: "arg \<Rightarrow> string" where
  "get_secret_value (SecretStr v) = v"
| "get_secret_value (Plain t) = t"

fun str_arg :: "arg \<Rightarrow> string" where
  "str_arg (Plain t) = t"
| "str_arg (SecretStr v) = (if v = [] then [] else ''**********'')"

fun isinstance_SecretStr :: "arg \<Rightarrow> bool" where
  "isinstance_SecretStr (SecretStr v) = True"
| "isinstance_SecretStr (Plain t) = False"

text \<open>\<^verbatim>\<open>utils.get_str_value\<close>.\<close>

definition get_str_value :: "arg \<Rightarrow> string" where
  "get_str_value v = (if isinstance_SecretStr v then get_secret_value v else str_arg v)"

type_synonym handle = nat

datatype level = DEBUG | INFO | WARNING | ERROR

text \<open>
  What a run leaves behind, in order: log records, the retry wrapper's own trace and
  waits (seconds), the engine's sleeps (milliseconds), and the calls made to the
  browser driver and to the HTTP client.
\<close>

datatype event =
    Log level string
  | After_log nat
  | Backoff nat
  | Sleep int
  | Start handle
  | Launch handle string bool
  | Mkdir string
  | New_context handle "string option"
  | Set_default_timeout handle int
  | New_page handle
  | Goto handle string
  | Close handle
  | Stop handle
  | Http_get string

record settings =
  tidalidarr_url :: string
  browser_type :: string
  headless :: bool
  timeout_ms :: int
  sleep_ms :: int
  take_video :: bool
  video_dir :: string

record response =
  status_code :: nat
  reason :: string
  response_url :: string
  response_text :: string

text \<open>
  A \<^verbatim>\<open>Locator\<close> is a query, not an element: the page it belongs to, the chain of
  frame selectors it is nested in (each one taken at its first match) and the query
  string, or the \<open>i\<close>-th match of another locator (\<^verbatim>\<open>locator.nth(i)\<close>). A
  \<^verbatim>\<open>FrameLocator\<close> is a page and a chain of frame selectors.
\<close>

datatype locator = Locator handle "string list" string | Nth locator nat

datatype frame_locator = FrameLocator handle "string list"

text \<open>The engine's \<^verbatim>\<open>selector: str | Locator\<close> parameters.\<close>

datatype selector = Str string | Loc locator

text \<open>
  The world outside the engine: the driver's supply of fresh handles, the matches of
  every query on every page (the visibility of each match, in document order, for a
  chain of frame selectors and a query), the outcomes of the successive page loads
  (success, or the message of the driver's error), the text the driver prints for a
  locator, the answer of the HTTP service, and the trace.
\<close>

record world =
  fresh :: handle
  dom :: "handle \<Rightarrow> string list \<Rightarrow> string \<Rightarrow> bool list"
  repr_locator :: "locator \<Rightarrow> string"
  goto_outcomes :: "string option list"
  http :: "string \<Rightarrow> exn + response"
  trace :: "event list"

text \<open>\<^verbatim>\<open>engine.PlaywrightEngine\<close>: the four optional handles and the settings.\<close>

record state = world +
  self_settings :: settings
  self_playwright :: "handle option"
  self_browser :: "handle option"
  self_context :: "handle option"
  self_page :: "handle option"

type_synonym 'a action = "state \<Rightarrow> (exn + 'a) \<times> state"

definition PlaywrightEngine :: "settings \<Rightarrow> world \<Rightarrow> state" where
  "PlaywrightEngine cfg w =
     \<lparr>fresh = fresh w, dom = dom w, repr_locator = repr_locator w,
      goto_outcomes = goto_outcomes w, http = http w, trace = trace w,
      self_settings = cfg, self_playwright = None, self_browser = None,
      self_context = None, self_page = None\<rparr>"

definition emit :: "event \<Rightarrow> state \<Rightarrow> state" where
  "emit ev s = s\<lparr>trace := trace s @ [ev]\<rparr>"

definition return :: "'a \<Rightarrow> 'a action" where
  "return x s = (Inr x, s)"

definition raise :: "exn \<Rightarrow> 'a action" where
  "raise e s = (Inl e, s)"

definition bind :: "'a action \<Rightarrow> ('a \<Rightarrow> 'b action) \<Rightarrow> 'b action" where
  "bind m k s = (case m s of (Inl e, s') \<Rightarrow> (Inl e, s') | (Inr x, s') \<Rightarrow> k x s')"

section \<open>The outcome reporter\<close>

text \<open>
  \<^verbatim>\<open>PlaywrightEngine.report\<close>: \<^verbatim>\<open>logger.exception\<close> logs at level ERROR,
  \<^verbatim>\<open>logger.info\<close> at INFO.
\<close>

definition report :: "string \<Rightarrow> Status option \<Rightarrow> state \<Rightarrow> state" where
  "report message status s =
     (if status = Some FAILED then emit (Log ERROR message) s else emit (Log INFO message) s)"

text \<open>
  \<^verbatim>\<open>utils.report_status\<close>. \<open>name\<close> is \<^verbatim>\<open>func.__name__\<close>, \<open>args\<close> and
  \<open>kwargs\<close> are the call's positional and keyword arguments (after \<^verbatim>\<open>self\<close>), and
  \<open>func\<close> is the wrapped function applied to them.
\<close>

definition func_call :: "string \<Rightarrow> arg list \<Rightarrow> (string \<times> arg) list \<Rightarrow> string" where
  "func_call name args kwargs =
     (let args_parts = map str_arg args;
          kwargs_parts = map (\<lambda>(k, v). k @ ''='' @ get_str_value v) kwargs;
          all_args = join '', '' (args_parts @ kwargs_parts)
      in name @ '' ('' @ all_args @ '')'')"

definition report_status ::
  "string \<Rightarrow> arg list \<Rightarrow> (string \<times> arg) list \<Rightarrow> 'a action \<Rightarrow> 'a action" where
  "report_status name args kwargs func s =
     (let s1 = report (''Calling '' @ func_call name args kwargs) None s
      in case func s1 of
           (Inr result, s2) \<Rightarrow>
             (Inr result,
              report (''Called '' @ func_call name args kwargs @ '' successfully'') None s2)
         | (Inl e, s2) \<Rightarrow>
             (Inl e,
              report (''Failed to call '' @ func_call name args kwargs @ '': '' @ str_exn e)
                (Some FAILED) s2))"

section \<open>The retry wrapper\<close>

text \<open>
  \<^verbatim>\<open>utils.retry_with_backoff\<close> hands the function to tenacity's \<^verbatim>\<open>retry\<close> with
  \<^verbatim>\<open>stop_after_attempt(5)\<close>, \<^verbatim>\<open>wait_exponential(multiplier=1, min=1, max=30)\<close>,
  \<^verbatim>\<open>after_log(logger, DEBUG)\<close> and \<^verbatim>\<open>reraise=True\<close>. Tenacity numbers attempts
  from 1; its exponential wait after attempt \<open>n\<close> is
  \<^verbatim>\<open>max(max(0, min), min(multiplier * 2 ** (n - 1), max))\<close>. After a failed attempt it
  calls \<^verbatim>\<open>after\<close>, then asks \<^verbatim>\<open>stop\<close>: when that holds it re-raises the attempt's
  exception, otherwise it sleeps for the wait and runs the next attempt.
\<close>

definition wait_exponential :: "nat \<Rightarrow> nat \<Rightarrow> nat \<Rightarrow> nat \<Rightarrow> nat" where
  "wait_exponential multiplier min_wait max_wait attempt_number =
     max (max 0 min_wait) (min (multiplier * 2 ^ (attempt_number - 1)) max_wait)"

definition stop_after_attempt :: "nat \<Rightarrow> nat \<Rightarrow> bool" where
  "stop_after_attempt max_attempt_number attempt_number =
     (attempt_number \<ge> max_attempt_number)"

function retrying :: "'a action \<Rightarrow> nat \<Rightarrow> 'a action" where
  "retrying func attempt_number s =
     (case func s of
        (Inr result, s1) \<Rightarrow> (Inr result, s1)
      | (Inl e, s1) \<Rightarrow>
          (let s2 = emit (After_log attempt_number) s1
           in if stop_after_attempt 5 attempt_number then (Inl e, s2)
              else retrying func (attempt_number + 1)
                     (emit (Backoff (wait_exponential 1 1 30 attempt_number)) s2)))"
  by pat_completeness auto
termination
  by (relation "measure (\<lambda>(func, attempt_number, s). 5 - attempt_number)")
     (auto simp: stop_after_attempt_def)

declare retrying.simps [simp del]

definition retry_with_backoff :: "'a action \<Rightarrow> 'a action" where
  "retry_with_backoff func = retrying func 1"

section \<open>The browser driver\<close>

text \<open>
  The driver calls the engine makes, as far as the engine depends on their results.
  A page is closed once \<^verbatim>\<open>close\<close> has been called on it; every call on a closed
  page fails. \<^verbatim>\<open>locator.is_visible()\<close> is strict: it answers False for no match,
  the visibility of a sole match, and fails for several.
\<close>

definition new_handle :: "state \<Rightarrow> handle \<times> state" where
  "new_handle s = (fresh s, s\<lparr>fresh := Suc (fresh s)\<rparr>)"

definition is_closed :: "state \<Rightarrow> handle \<Rightarrow> bool" where
  "is_closed s h = (Close h \<in> set (trace s))"

definition target_closed :: exn where
  "target_closed = PlaywrightError ''Target page, context or browser has been closed''"

fun page_of :: "locator \<Rightarrow> handle" where
  "page_of (Locator p chain q) = p"
| "page_of (Nth l i) = page_of l"

fun matches :: "(handle \<Rightarrow> string list \<Rightarrow> string \<Rightarrow> bool list) \<Rightarrow> locator \<Rightarrow> bool list" where
  "matches d (Locator p chain q) = d p chain q"
| "matches d (Nth l i) = (let ms = matches d l in if i < length ms then [ms ! i] else [])"

definition page_locator :: "handle \<Rightarrow> string \<Rightarrow> locator" where
  "page_locator p q = Locator p [] q"

fun frame_locator_locator :: "frame_locator \<Rightarrow> string \<Rightarrow> locator" where
  "frame_locator_locator (FrameLocator p chain) q = Locator p chain q"

definition count :: "locator \<Rightarrow> nat action" where
  "count l s =
     (if is_closed s (page_of l) then (Inl target_closed, s)
      else (Inr (length (matches (dom s) l)), s))"

definition is_visible :: "locator \<Rightarrow> bool action" where
  "is_visible l s =
     (if is_closed s (page_of l) then (Inl target_closed, s)
      else case matches (dom s) l of
             [] \<Rightarrow> (Inr False, s)
           | [v] \<Rightarrow> (Inr v, s)
           | v # w # vs \<Rightarrow> (Inl (PlaywrightError ''strict mode violation''), s))"

definition all_locators :: "locator \<Rightarrow> locator list action" where
  "all_locators l s =
     (if is_closed s (page_of l) then (Inl target_closed, s)
      else (Inr (map (Nth l) [0..<length (matches (dom s) l)]), s))"

definition goto :: "handle \<Rightarrow> string \<Rightarrow> unit action" where
  "goto p url s =
     (if is_closed s p then (Inl target_closed, s)
      else case goto_outcomes s of
             [] \<Rightarrow> (Inr (), emit (Goto p url) s)
           | None # rest \<Rightarrow> (Inr (), emit (Goto p url) (s\<lparr>goto_outcomes := rest\<rparr>))
           | Some m # rest \<Rightarrow>
               (Inl (PlaywrightError m), emit (Goto p url) (s\<lparr>goto_outcomes := rest\<rparr>)))"

section \<open>The engine\<close>

text \<open>
  \<^verbatim>\<open>PlaywrightEngine.setup\<close>. The driver calls of \<^verbatim>\<open>setup\<close> are taken to return
  normally, each with a fresh handle.
\<close>

definition setup_engine :: "unit action" where
  "setup_engine s0 =
     (let cfg = self_settings s0;
          (pw, s1) = new_handle s0;
          s2 = (emit (Start pw) s1)\<lparr>self_playwright := Some pw\<rparr>;
          (browser, s3) = new_handle s2;
          s4 = (emit (Launch browser (browser_type cfg) (headless cfg)) s3)
                 \<lparr>self_browser := Some browser\<rparr>;
          s5 = (if take_video cfg then emit (Mkdir (video_dir cfg)) s4 else s4);
          (context, s6) = new_handle s5;
          s7 = emit (New_context context
                       (if take_video cfg then Some (video_dir cfg) else None)) s6;
          s8 = (emit (Set_default_timeout context (timeout_ms cfg)) s7)
                 \<lparr>self_context := Some context\<rparr>;
          (page, s9) = new_handle s8;
          s10 = (emit (New_page page) s9)\<lparr>self_page := Some page\<rparr>
      in (Inr (), s10))"

text \<open>\<^verbatim>\<open>PlaywrightEngine.teardown\<close>.\<close>

definition teardown :: "unit action" where
  "teardown s0 =
     (let s1 = (case self_page s0 of Some page \<Rightarrow> emit (Close page) s0 | None \<Rightarrow> s0);
          s2 = (case self_context s1 of Some context \<Rightarrow> emit (Close context) s1 | None \<Rightarrow> s1);
          s3 = (case self_browser s2 of Some browser \<Rightarrow> emit (Close browser) s2 | None \<Rightarrow> s2);
          s4 = (case self_playwright s3 of Some pw \<Rightarrow> emit (Stop pw) s3 | None \<Rightarrow> s3)
      in (Inr (), s4))"

text \<open>
  \<^verbatim>\<open>PlaywrightEngine.sleep\<close>: \<^verbatim>\<open>time.sleep\<close> refuses a negative length.
\<close>

definition sleep :: "int \<Rightarrow> unit action" where
  "sleep milliseconds s =
     (if milliseconds < 0 then (Inl (ValueError ''sleep length must be non-negative''), s)
      else (Inr (), emit (Sleep milliseconds) s))"

text \<open>The \<^verbatim>\<open>page\<close> property, and the error it raises.\<close>

definition not_initialized :: exn where
  "not_initialized = ValueError ''Page not initialized. Please call `setup` first.''"

definition page :: "handle action" where
  "page s =
     (case self_page s of
        None \<Rightarrow> (Inl not_initialized, s)
      | Some p \<Rightarrow> (Inr p, s))"

text \<open>
  \<^verbatim>\<open>PlaywrightEngine._get_selector\<close>. Its last branch, for a value that is no member
  of \<^verbatim>\<open>SelectorType\<close>, has no counterpart: the type has the three members only.
\<close>

fun get_selector :: "string \<Rightarrow> SelectorType \<Rightarrow> string" where
  "get_selector selector XPATH = ''xpath='' @ selector"
| "get_selector selector ID = ''#'' @ selector"
| "get_selector selector CSS = selector"

text \<open>
  \<^verbatim>\<open>PlaywrightEngine._get_locator\<close>. \<open>first_visible\<close> is its \<^verbatim>\<open>for\<close> loop over
  \<^verbatim>\<open>range(count)\<close> with the \<^verbatim>\<open>else\<close> branch of the loop.
\<close>

fun first_visible :: "locator \<Rightarrow> nat list \<Rightarrow> string \<Rightarrow> locator action" where
  "first_visible locator [] selector s =
     (Inl (ValueError (''Visible element not found: '' @ selector)), s)"
| "first_visible locator (i # rest) selector s =
     (let element = Nth locator i
      in case is_visible element s of
           (Inl e, s1) \<Rightarrow> (Inl e, s1)
         | (Inr visible, s1) \<Rightarrow>
             if visible then (Inr element, s1) else first_visible locator rest selector s1)"

definition get_locator ::
  "selector \<Rightarrow> SelectorType \<Rightarrow> frame_locator option \<Rightarrow> locator action" where
  "get_locator selector selector_type iframe =
     (case selector of
        Loc l \<Rightarrow> return l
      | Str raw \<Rightarrow>
          (let sel = get_selector raw selector_type
           in bind (case iframe of
                      Some f \<Rightarrow> return (frame_locator_locator f sel)
                    | None \<Rightarrow> bind page (\<lambda>p. return (page_locator p sel)))
                (\<lambda>locator. bind (count locator)
                   (\<lambda>n. if n = 0 then raise (ValueError (''Element not found: '' @ sel))
                        else if n > 1 then
                          (\<lambda>s. first_visible locator [0..<n] sel
                                 (emit (Log WARNING (''Multiple elements found: '' @ sel
                                          @ ''. Selecting the first visible.'')) s))
                        else return locator))))"

text \<open>\<^verbatim>\<open>PlaywrightEngine.navigate\<close>: the body, then the method as decorated.\<close>

definition navigate_body :: "string \<Rightarrow> unit action" where
  "navigate_body url =
     bind page (\<lambda>p. bind (goto p url)
       (\<lambda>_ s. sleep (sleep_ms (self_settings s) * 3) s))"

definition navigate :: "string \<Rightarrow> unit action" where
  "navigate url = report_status ''navigate'' [Plain url] [] (retry_with_backoff (navigate_body url))"

text \<open>
  \<^verbatim>\<open>PlaywrightEngine.element_exists\<close>. \<open>any_visible\<close> is
  \<^verbatim>\<open>any(loc.is_visible() for loc in locator.all())\<close>, which stops at the first True.
  The body's \<^verbatim>\<open>return A and B if check_visible else True\<close> is Python's
  \<^verbatim>\<open>(A and B) if check_visible else True\<close>.
\<close>

fun any_visible :: "locator list \<Rightarrow> bool action" where
  "any_visible [] s = (Inr False, s)"
| "any_visible (loc # rest) s =
     (case is_visible loc s of
        (Inl e, s1) \<Rightarrow> (Inl e, s1)
      | (Inr visible, s1) \<Rightarrow> if visible then (Inr True, s1) else any_visible rest s1)"

definition count_and_any_visible :: "locator \<Rightarrow> bool action" where
  "count_and_any_visible locator =
     bind (count locator)
       (\<lambda>n. if n > 0 then bind (all_locators locator) any_visible else return False)"

definition element_exists_body :: "selector \<Rightarrow> SelectorType \<Rightarrow> bool \<Rightarrow> bool action" where
  "element_exists_body selector selector_type check_visible =
     (case selector of
        Loc l \<Rightarrow> (if check_visible then count_and_any_visible l else return True)
      | Str raw \<Rightarrow>
          (let sel = get_selector raw selector_type
           in bind page (\<lambda>p.
                let locator = page_locator p sel
                in if check_visible then count_and_any_visible locator else return True)))"

definition str_selector :: "state \<Rightarrow> selector \<Rightarrow> string" where
  "str_selector s selector = (case selector of Str raw \<Rightarrow> raw | Loc l \<Rightarrow> repr_locator s l)"

definition str_bool :: "bool \<Rightarrow> string" where
  "str_bool b = (if b then ''True'' else ''False'')"

text \<open>
  The decorated method, called with \<^verbatim>\<open>selector\<close> and \<^verbatim>\<open>selector_type\<close> by position;
  \<^verbatim>\<open>check_visible\<close> is keyword-only and defaults to True when not given.
\<close>

definition element_exists :: "selector \<Rightarrow> SelectorType \<Rightarrow> bool option \<Rightarrow> bool action" where
  "element_exists selector selector_type check_visible s =
     report_status ''element_exists''
       [Plain (str_selector s selector), Plain (str_SelectorType selector_type)]
       (case check_visible of None \<Rightarrow> [] | Some b \<Rightarrow> [(''check_visible'', Plain (str_bool b))])
       (retry_with_backoff
          (element_exists_body selector selector_type
             (case check_visible of None \<Rightarrow> True | Some b \<Rightarrow> b))) s"

text \<open>\<^verbatim>\<open>PlaywrightEngine.assert_element_not_visible\<close>.\<close>

definition assert_element_not_visible_body :: "selector \<Rightarrow> SelectorType \<Rightarrow> unit action" where
  "assert_element_not_visible_body selector selector_type =
     bind (case selector of
             Loc l \<Rightarrow> (\<lambda>s. (Inr (l, repr_locator s l), s))
           | Str raw \<Rightarrow>
               (let sel = get_selector raw selector_type
                in bind page (\<lambda>p. return (page_locator p sel, sel))))
       (\<lambda>(locator, shown).
          bind (is_visible locator)
            (\<lambda>visible.
               if visible
               then raise (AssertionError (''Element not visible assertion failed: '' @ shown))
               else bind (count locator)
                      (\<lambda>n. if n > 0
                           then raise (AssertionError
                                  (''Element not visible assertion failed: '' @ shown))
                           else return ())))"

definition assert_element_not_visible :: "selector \<Rightarrow> SelectorType \<Rightarrow> unit action" where
  "assert_element_not_visible selector selector_type s =
     report_status ''assert_element_not_visible''
       [Plain (str_selector s selector), Plain (str_SelectorType selector_type)] []
       (retry_with_backoff (assert_element_not_visible_body selector selector_type)) s"

section \<open>The main flow\<close>

text \<open>
  \<^verbatim>\<open>requests.get\<close> and \<^verbatim>\<open>Response.raise_for_status\<close>, which raises for a status
  from 400 to 599.
\<close>

fun digit :: "nat \<Rightarrow> char" where
  "digit n = char_of (48 + n)"

function str_nat :: "nat \<Rightarrow> string" where
  "str_nat n = (if n < 10 then [digit n] else str_nat (n div 10) @ [digit (n mod 10)])"
  by pat_completeness auto
termination
  by (relation "measure id") auto

declare str_nat.simps [simp del]

definition requests_get :: "string \<Rightarrow> response action" where
  "requests_get url s =
     (case http s url of
        Inl e \<Rightarrow> (Inl e, emit (Http_get url) s)
      | Inr r \<Rightarrow> (Inr r, emit (Http_get url) s))"

definition raise_for_status :: "response \<Rightarrow> unit action" where
  "raise_for_status r =
     (if 400 \<le> status_code r \<and> status_code r < 500
      then raise (RequestException (str_nat (status_code r) @ '' Client Error: '' @ reason r
                    @ '' for url: '' @ response_url r))
      else if 500 \<le> status_code r \<and> status_code r < 600
      then raise (RequestException (str_nat (status_code r) @ '' Server Error: '' @ reason r
                    @ '' for url: '' @ response_url r))
      else return ())"

definition logger_info :: "string \<Rightarrow> unit action" where
  "logger_info message s = (Inr (), emit (Log INFO message) s)"

text \<open>
  \<^verbatim>\<open>__main__.main\<close>, from the construction of the engine on; the settings are
  given, and the error tracker's initialisation leaves no mark on the engine.
\<close>

definition main :: "settings \<Rightarrow> world \<Rightarrow> (exn + unit) \<times> state" where
  "main cfg w =
     (let engine = PlaywrightEngine cfg w
      in bind setup_engine (\<lambda>_.
           let base_url = removesuffix (tidalidarr_url cfg) ''/''
           in bind (requests_get (base_url @ ''/auth'')) (\<lambda>response.
                bind (raise_for_status response) (\<lambda>_.
                  let content = response_text response
                  in if \<not> contains content ''https://link.tidal.com''
                     then logger_info ''Authorization does not seem required''
                     else (let authorization_url = strip content
                           in bind (logger_info (''Authorization is required, URL: ''
                                                  @ authorization_url))
                                (\<lambda>_. navigate authorization_url))))) engine)"

section \<open>Observations on a trace\<close>

text \<open>
  The reports of the outcome reporter are the log records at INFO and at ERROR; the
  retry wrapper leaves its own records and waits; a release is a \<^verbatim>\<open>close\<close> or
  \<^verbatim>\<open>stop\<close> call on a handle.
\<close>

fun is_report :: "event \<Rightarrow> bool" where
  "is_report (Log lv m) = (lv = INFO \<or> lv = ERROR)"
| "is_report ev = False"

definition reports :: "event list \<Rightarrow> event list" where
  "reports t = filter is_report t"

fun backoff_of :: "event \<Rightarrow> nat list" where
  "backoff_of (Backoff w) = [w]"
| "backoff_of ev = []"

definition backoffs :: "event list \<Rightarrow> nat list" where
  "backoffs t = concat (map backoff_of t)"

fun release_of :: "event \<Rightarrow> handle list" where
  "release_of (Close h) = [h]"
| "release_of (Stop h) = [h]"
| "release_of ev = []"

definition released :: "event list \<Rightarrow> handle list" where
  "released t = concat (map release_of t)"

text \<open>
  The state in which the retry wrapper starts each attempt of \<open>func\<close>, counted from 0
  for the first: the state of the call, and after a failed attempt the state that
  attempt left, with the wrapper's record of it and its wait.
\<close>

fun attempt_start :: "'a action \<Rightarrow> state \<Rightarrow> nat \<Rightarrow> state" where
  "attempt_start func s 0 = s"
| "attempt_start func s (Suc k) =
     emit (Backoff (wait_exponential 1 1 30 (Suc k)))
       (emit (After_log (Suc k)) (snd (func (attempt_start func s k))))"

text \<open>
  The specification's formula for the wait before attempt \<open>k + 1\<close>, in its words:
  the minimum of \<open>2^k\<close> seconds and 30 seconds, with a floor of 1 second.
\<close>

definition spec_wait :: "nat \<Rightarrow> nat" where
  "spec_wait k = max 1 (min (2 ^ k) 30)"




section \<open>Example sessions\<close>

text \<open>
  The default settings, a page with a hidden banner, a visible login field, three
  items of which the first is hidden, and two hidden ghosts, and a service that
  answers 200 with a given body.
\<close>

definition default_settings :: settings where
  "default_settings =
     \<lparr>tidalidarr_url = ''http://127.0.0.1:8000'', browser_type = ''chromium'',
      headless = True, timeout_ms = 5000, sleep_ms = 1000, take_video = False,
      video_dir = ''videos''\<rparr>"

definition example_dom :: "handle \<Rightarrow> string list \<Rightarrow> string \<Rightarrow> bool list" where
  "example_dom p chain q =
     (if q = ''#banner'' then [False]
      else if q = ''#login'' then [True]
      else if q = ''.item'' then [False, True, True]
      else if q = ''.ghost'' then [False, False]
      else [])"

definition example_world :: "string option list \<Rightarrow> string \<Rightarrow> world" where
  "example_world outcomes body =
     \<lparr>fresh = 0, dom = example_dom, repr_locator = (\<lambda>l. ''<Locator>''),
      goto_outcomes = outcomes,
      http = (\<lambda>url. Inr \<lparr>status_code = 200, reason = ''OK'', response_url = url,
                            response_text = body\<rparr>),
      trace = []\<rparr>"

definition ready :: "string option list \<Rightarrow> state" where
  "ready outcomes =
     snd (setup_engine (PlaywrightEngine default_settings (example_world outcomes [])))"

section \<open>Basic facts\<close>

lemma emit_fields [simp]:
  "trace (emit ev s) = trace s @ [ev]"
  "dom (emit ev s) = dom s"
  "fresh (emit ev s) = fresh s"
  "repr_locator (emit ev s) = repr_locator s"
  "goto_outcomes (emit ev s) = goto_outcomes s"
  "http (emit ev s) = http s"
  "self_settings (emit ev s) = self_settings s"
  "self_playwright (emit ev s) = self_playwright s"
  "self_browser (emit ev s) = self_browser s"
  "self_context (emit ev s) = self_context s"
  "self_page (emit ev s) = self_page s"
  by (simp_all add: emit_def)


lemma retrying_invariant:
  assumes func: "\<And>s. obs (snd (func s)) = obs s"
    and after: "\<And>n s. obs (emit (After_log n) s) = obs s"
    and wait: "\<And>w s. obs (emit (Backoff w) s) = obs s"
  shows "obs (snd (retrying func n s)) = obs s"
  using func
proof (induction func n s rule: retrying.induct)
  case (1 func n s)
  note quiet = "1.prems"
  show ?case
  proof (cases "func s")
    case (Pair r s1)
    have s1: "obs s1 = obs s" using Pair quiet [of s] by simp
    show ?thesis
    proof (cases r)
      case (Inr v)
      with Pair s1 show ?thesis by (simp add: retrying.simps)
    next
      case (Inl e)
      show ?thesis
      proof (cases "stop_after_attempt 5 n")
        case True
        with Pair Inl s1 show ?thesis by (simp add: retrying.simps [of func n s] after)
      next
        case False
        have "obs (snd (retrying func (n + 1)
                 (emit (Backoff (wait_exponential 1 1 30 n)) (emit (After_log n) s1))))
              = obs (emit (Backoff (wait_exponential 1 1 30 n)) (emit (After_log n) s1))"
          using "1.IH" [OF Pair [symmetric] Inl refl False quiet] .
        with Pair Inl s1 False show ?thesis
          by (simp add: retrying.simps [of func n s] after wait)
      qed
    qed
  qed
qed




lemma ready_eval:
  "ready outs = \<lparr>fresh = 4, dom = example_dom, repr_locator = (\<lambda>l. ''<Locator>''),
      goto_outcomes = outs,
      http = (\<lambda>url. Inr \<lparr>status_code = 200, reason = ''OK'', response_url = url,
                            response_text = []\<rparr>),
      trace = [Start 0, Launch 1 ''chromium'' True, New_context 2 None,
               Set_default_timeout 2 5000, New_page 3],
      self_settings = default_settings, self_playwright = Some 0, self_browser = Some 1,
      self_context = Some 2, self_page = Some 3\<rparr>"
  by (simp add: ready_def setup_engine_def PlaywrightEngine_def example_world_def new_handle_def
      emit_def default_settings_def Let_def)

lemma ready_fields:
  "self_page (ready outs) = Some 3"
  "dom (ready outs) = example_dom"
  "goto_outcomes (ready outs) = outs"
  "repr_locator (ready outs) = (\<lambda>l. ''<Locator>'')"
  "self_settings (ready outs) = default_settings"
  "trace (ready outs) = [Start 0, Launch 1 ''chromium'' True, New_context 2 None,
               Set_default_timeout 2 5000, New_page 3]"
  by (simp_all add: ready_eval)

lemma ready_open: "\<not> is_closed (ready outs) 3"
  by (simp add: is_closed_def ready_fields)

section \<open>The outcome reporter and secret arguments\<close>

text \<open>
  Positional arguments go through \<^verbatim>\<open>str\<close>, which masks a secret: two calls that
  differ in the plaintext of a non-empty positional secret are described alike.
\<close>

lemma func_call_positional_secret_masked:
  assumes "v \<noteq> []" and "v' \<noteq> []"
  shows "func_call name (before @ SecretStr v # after) kwargs
       = func_call name (before @ SecretStr v' # after) kwargs"
  using assms by (simp add: func_call_def)

text \<open>
  C1. The reported call description never contains a secret argument's plaintext,
  whether the secret is passed by position or by keyword. The code breaks this for
  keyword arguments: \<^verbatim>\<open>get_str_value\<close> unwraps the secret. The call
  \<^verbatim>\<open>fill(value=SecretStr("hunter2"), selector="#password", selector_type=SelectorType.CSS)\<close>
  is reported with the plaintext, while the same call by position is reported masked.
\<close>

theorem report_status_keyword_secret_in_plaintext:
  "func_call ''fill'' []
     [(''value'', SecretStr ''hunter2''), (''selector'', Plain ''#password''),
      (''selector_type'', Plain (str_SelectorType CSS))]
     = ''fill (value=hunter2, selector=#password, selector_type=css)''
   \<and> contains (func_call ''fill'' []
         [(''value'', SecretStr ''hunter2''), (''selector'', Plain ''#password''),
          (''selector_type'', Plain (str_SelectorType CSS))]) ''hunter2''
   \<and> report_status ''fill'' []
         [(''value'', SecretStr ''hunter2''), (''selector'', Plain ''#password''),
          (''selector_type'', Plain (str_SelectorType CSS))] (return ()) s
       = (Inr (),
          emit (Log INFO
                 ''Called fill (value=hunter2, selector=#password, selector_type=css) successfully'')
            (emit (Log INFO
                    ''Calling fill (value=hunter2, selector=#password, selector_type=css)'') s))
   \<and> func_call ''fill'' [] [(''value'', SecretStr ''hunter2'')]
       \<noteq> func_call ''fill'' [] [(''value'', SecretStr ''letmein'')]
   \<and> func_call ''fill''
         [SecretStr ''hunter2'', Plain ''#password'', Plain (str_SelectorType CSS)] []
       = ''fill (**********, #password, css)''"
  by (simp add: func_call_def get_str_value_def report_status_def report_def return_def)

section \<open>Presence and visibility queries\<close>

lemma is_visible_Nth:
  assumes "\<not> is_closed s (page_of l)" and "i < length (matches (dom s) l)"
  shows "is_visible (Nth l i) s = (Inr (matches (dom s) l ! i), s)"
  using assms by (simp add: is_visible_def Let_def)

lemma any_visible_all:
  assumes "\<not> is_closed s (page_of l)" and "k \<le> n" and "n = length (matches (dom s) l)"
  shows "any_visible (map (Nth l) [k..<n]) s
       = (Inr (\<exists>i. k \<le> i \<and> i < n \<and> matches (dom s) l ! i), s)"
  using assms
proof (induction "n - k" arbitrary: k)
  case 0
  then show ?case by simp
next
  case (Suc d)
  then have lt: "k < n" by simp
  have step: "any_visible (map (Nth l) [Suc k..<n]) s
       = (Inr (\<exists>i. Suc k \<le> i \<and> i < n \<and> matches (dom s) l ! i), s)"
    using Suc by simp
  have vis: "is_visible (Nth l k) s = (Inr (matches (dom s) l ! k), s)"
    using Suc.prems lt by (simp add: is_visible_Nth)
  have ex: "(\<exists>i. k \<le> i \<and> i < n \<and> matches (dom s) l ! i)
        = (matches (dom s) l ! k \<or> (\<exists>i. Suc k \<le> i \<and> i < n \<and> matches (dom s) l ! i))"
    using lt by (metis Suc_leI le_eq_less_or_eq Suc_leD order_refl)
  show ?case
    using lt step vis by (simp add: upt_conv_Cons ex)
qed

text \<open>
  With \<^verbatim>\<open>check_visible\<close> left at True, \<^verbatim>\<open>element_exists\<close> answers whether some
  match is visible; with \<^verbatim>\<open>check_visible=False\<close> it answers True whatever the page
  holds.
\<close>

lemma element_exists_body_check_visible:
  assumes "self_page s = Some p" and "\<not> is_closed s p"
  shows "element_exists_body (Str raw) selector_type True s
       = (Inr (True \<in> set (dom s p [] (get_selector raw selector_type))), s)"
proof -
  let ?l = "Locator p [] (get_selector raw selector_type)"
  have "any_visible (map (Nth ?l) [0..<length (matches (dom s) ?l)]) s
       = (Inr (\<exists>i. 0 \<le> i \<and> i < length (matches (dom s) ?l) \<and> matches (dom s) ?l ! i), s)"
    using assms by (intro any_visible_all) simp_all
  moreover have "(\<exists>i. i < length (dom s p [] (get_selector raw selector_type))
                      \<and> dom s p [] (get_selector raw selector_type) ! i)
               = (True \<in> set (dom s p [] (get_selector raw selector_type)))"
    by (auto simp: in_set_conv_nth)
  ultimately show ?thesis
    using assms
    by (auto simp: element_exists_body_def bind_def page_def page_locator_def
        count_and_any_visible_def count_def all_locators_def return_def Let_def)
qed

lemma element_exists_body_unchecked:
  assumes "self_page s = Some p"
  shows "element_exists_body (Str raw) selector_type False s = (Inr True, s)"
  using assms
  by (simp add: element_exists_body_def bind_def page_def return_def Let_def)

text \<open>
  C3. \<^verbatim>\<open>element_exists\<close> with \<^verbatim>\<open>check_visible=False\<close> is true exactly when
  the match count is positive. The code answers True for a selector that matches
  nothing: on the example page, \<^verbatim>\<open>.nope\<close> has no match and
  \<^verbatim>\<open>element_exists(".nope", SelectorType.CSS, check_visible=False)\<close> returns True.
\<close>

theorem element_exists_unchecked_true_without_match:
  "dom (ready []) 3 [] (get_selector ''.nope'' CSS) = []
   \<and> fst (count (Locator 3 [] (get_selector ''.nope'' CSS)) (ready [])) = Inr 0
   \<and> fst (element_exists (Str ''.nope'') CSS (Some False) (ready [])) = Inr True
   \<and> fst (element_exists (Str ''.nope'') CSS None (ready [])) = Inr False"
proof -
  have body: "element_exists_body (Str ''.nope'') CSS False s = (Inr True, s)"
    if "self_page s = Some 3" for s
    using that by (simp add: element_exists_body_unchecked)
  have body': "element_exists_body (Str ''.nope'') CSS True s = (Inr False, s)"
    if "self_page s = Some 3" "\<not> is_closed s 3" "dom s = example_dom" for s
    using that by (simp add: element_exists_body_check_visible example_dom_def)
  show ?thesis
    by (simp add: element_exists_def report_status_def retry_with_backoff_def
        retrying.simps body body' report_def ready_fields is_closed_def
        count_def example_dom_def split: prod.splits)
qed

text \<open>
  \<^verbatim>\<open>assert_element_not_visible\<close> on an open page: it passes exactly when the
  selector matches nothing.
\<close>

lemma assert_element_not_visible_body_passes:
  assumes "self_page s = Some p" and "\<not> is_closed s p"
  shows "(fst (assert_element_not_visible_body (Str raw) selector_type s) = Inr ())
       = (dom s p [] (get_selector raw selector_type) = [])"
  using assms
  by (auto simp: assert_element_not_visible_body_def bind_def page_def return_def raise_def
      page_locator_def is_visible_def count_def Let_def split: list.splits)

text \<open>
  C2. \<^verbatim>\<open>assert_element_not_visible\<close> succeeds when the element is absent and when
  it is present but hidden. The code raises for a present, hidden element: on the
  example page \<^verbatim>\<open>#banner\<close> matches one hidden element, and
  \<^verbatim>\<open>assert_element_not_visible("banner", SelectorType.ID)\<close> fails.
\<close>

theorem assert_element_not_visible_fails_on_hidden:
  "dom (ready []) 3 [] (get_selector ''banner'' ID) = [False]
   \<and> fst (is_visible (Locator 3 [] (get_selector ''banner'' ID)) (ready [])) = Inr False
   \<and> fst (assert_element_not_visible (Str ''banner'') ID (ready []))
       = Inl (AssertionError ''Element not visible assertion failed: #banner'')
   \<and> fst (assert_element_not_visible (Str ''.nope'') CSS (ready [])) = Inr ()"
proof -
  have body: "assert_element_not_visible_body (Str ''banner'') ID s
       = (Inl (AssertionError ''Element not visible assertion failed: #banner''), s)"
    if "self_page s = Some 3" "\<not> is_closed s 3" "dom s = example_dom" for s
    using that
    by (simp add: assert_element_not_visible_body_def bind_def page_def return_def raise_def
        page_locator_def is_visible_def count_def example_dom_def Let_def)
  have body': "assert_element_not_visible_body (Str ''.nope'') CSS s = (Inr (), s)"
    if "self_page s = Some 3" "\<not> is_closed s 3" "dom s = example_dom" for s
    using that
    by (simp add: assert_element_not_visible_body_def bind_def page_def return_def raise_def
        page_locator_def is_visible_def count_def example_dom_def Let_def)
  show ?thesis
    by (simp add: assert_element_not_visible_def report_status_def retry_with_backoff_def
        retrying.simps body body' report_def ready_fields is_closed_def is_visible_def
        stop_after_attempt_def example_dom_def split: prod.splits)
qed


section \<open>Selector resolution\<close>

lemma is_visible_True:
  assumes "is_visible l s = (Inr True, s')"
  shows "matches (dom s) l = [True] \<and> s' = s"
  using assms by (auto simp: is_visible_def split: if_splits list.splits)

lemma first_visible_found:
  assumes "first_visible locator idxs sel s = (Inr l, s')"
  shows "s' = s \<and> (\<exists>i. l = Nth locator i) \<and> matches (dom s) l = [True]"
  using assms
proof (induction idxs arbitrary: s)
  case Nil
  then show ?case by simp
next
  case (Cons i rest)
  show ?case
  proof (cases "is_visible (Nth locator i) s")
    case (Pair r s1)
    have same: "s1 = s"
      using Pair by (auto simp: is_visible_def split: if_splits list.splits)
    show ?thesis
    proof (cases r)
      case (Inl e)
      with Cons.prems Pair show ?thesis by simp
    next
      case (Inr visible)
      show ?thesis
      proof (cases visible)
        case True
        with Cons.prems Pair Inr have "l = Nth locator i" by simp
        moreover have "matches (dom s) (Nth locator i) = [True]"
          using is_visible_True [of "Nth locator i" s s1] Pair Inr True by simp
        ultimately show ?thesis using Cons.prems Pair Inr True same by auto
      next
        case False
        with Cons.prems Pair Inr same have "first_visible locator rest sel s = (Inr l, s')"
          by simp
        then show ?thesis by (rule Cons.IH)
      qed
    qed
  qed
qed

lemma first_visible_none:
  assumes "\<not> is_closed s (page_of locator)" and "n = length (matches (dom s) locator)"
    and "\<forall>j. k \<le> j \<and> j < n \<longrightarrow> \<not> matches (dom s) locator ! j"
  shows "first_visible locator [k..<n] sel s
           = (Inl (ValueError (''Visible element not found: '' @ sel)), s)"
  using assms
proof (induction "n - k" arbitrary: k)
  case 0
  then show ?case by simp
next
  case (Suc d)
  then have lt: "k < n" by simp
  have vis: "is_visible (Nth locator k) s = (Inr (matches (dom s) locator ! k), s)"
    using Suc.prems lt by (simp add: is_visible_Nth)
  have hid: "\<not> matches (dom s) locator ! k"
    using Suc.prems lt by simp
  have step: "first_visible locator [Suc k..<n] sel s
             = (Inl (ValueError (''Visible element not found: '' @ sel)), s)"
    using Suc.hyps(1) [of "Suc k"] Suc.hyps(2) Suc.prems by simp
  show ?case using lt vis hid step by (simp add: upt_conv_Cons)
qed

lemma first_visible_first:
  assumes "\<not> is_closed s (page_of locator)" and "n = length (matches (dom s) locator)"
    and "k \<le> i" and "i < n" and "matches (dom s) locator ! i"
    and "\<forall>j. k \<le> j \<and> j < i \<longrightarrow> \<not> matches (dom s) locator ! j"
  shows "first_visible locator [k..<n] sel s = (Inr (Nth locator i), s)"
  using assms
proof (induction "i - k" arbitrary: k)
  case 0
  then have "k = i" by simp
  moreover have "is_visible (Nth locator i) s = (Inr (matches (dom s) locator ! i), s)"
    using "0.prems" by (simp add: is_visible_Nth)
  ultimately show ?case using "0.prems" by (simp add: upt_conv_Cons)
next
  case (Suc d)
  then have lt: "k < i" "k < n" by simp_all
  have vis: "is_visible (Nth locator k) s = (Inr (matches (dom s) locator ! k), s)"
    using Suc.prems lt by (simp add: is_visible_Nth)
  have hid: "\<not> matches (dom s) locator ! k"
    using Suc.prems lt by simp
  have step: "first_visible locator [Suc k..<n] sel s = (Inr (Nth locator i), s)"
    using Suc.hyps(1) [of "Suc k"] Suc.hyps(2) Suc.prems lt by simp
  show ?case using lt vis hid step by (simp add: upt_conv_Cons)
qed

text \<open>The two ways \<^verbatim>\<open>_get_locator\<close> obtains the locator it counts.\<close>

lemma get_locator_page:
  assumes "self_page s = Some p"
  shows "get_locator (Str raw) selector_type None s
       = bind (count (Locator p [] (get_selector raw selector_type)))
           (\<lambda>n. if n = 0
                then raise (ValueError (''Element not found: '' @ get_selector raw selector_type))
                else if n > 1 then
                  (\<lambda>s. first_visible (Locator p [] (get_selector raw selector_type)) [0..<n]
                         (get_selector raw selector_type)
                         (emit (Log WARNING (''Multiple elements found: ''
                                  @ get_selector raw selector_type
                                  @ ''. Selecting the first visible.'')) s))
                else return (Locator p [] (get_selector raw selector_type))) s"
  using assms
  by (simp add: get_locator_def bind_def page_def return_def page_locator_def Let_def)

lemma get_locator_iframe:
  "get_locator (Str raw) selector_type (Some (FrameLocator p chain)) s
       = bind (count (Locator p chain (get_selector raw selector_type)))
           (\<lambda>n. if n = 0
                then raise (ValueError (''Element not found: '' @ get_selector raw selector_type))
                else if n > 1 then
                  (\<lambda>s. first_visible (Locator p chain (get_selector raw selector_type)) [0..<n]
                         (get_selector raw selector_type)
                         (emit (Log WARNING (''Multiple elements found: ''
                                  @ get_selector raw selector_type
                                  @ ''. Selecting the first visible.'')) s))
                else return (Locator p chain (get_selector raw selector_type))) s"
  by (simp add: get_locator_def bind_def return_def Let_def)

lemma is_closed_emit_Log [simp]: "is_closed (emit (Log lv m) s) h = is_closed s h"
  by (simp add: is_closed_def)

lemma resolve_counted:
  fixes s :: state and p :: handle and chain :: "string list" and sel :: string
  assumes "\<not> is_closed s p"
  defines "ms \<equiv> dom s p chain sel"
  defines "warned \<equiv> emit (Log WARNING (''Multiple elements found: '' @ sel
                             @ ''. Selecting the first visible.'')) s"
  defines "resolve \<equiv> bind (count (Locator p chain sel))
           (\<lambda>n. if n = 0
                then raise (ValueError (''Element not found: '' @ sel))
                else if n > 1 then
                  (\<lambda>s. first_visible (Locator p chain sel) [0..<n] sel
                         (emit (Log WARNING (''Multiple elements found: '' @ sel
                                  @ ''. Selecting the first visible.'')) s))
                else return (Locator p chain sel)) s"
  shows "ms = [] \<Longrightarrow> resolve = (Inl (ValueError (''Element not found: '' @ sel)), s)"
    and "length ms = 1 \<Longrightarrow> resolve = (Inr (Locator p chain sel), s)"
    and "length ms > 1 \<Longrightarrow> i < length ms \<Longrightarrow> ms ! i \<Longrightarrow> \<forall>j<i. \<not> ms ! j \<Longrightarrow>
           resolve = (Inr (Nth (Locator p chain sel) i), warned)"
    and "length ms > 1 \<Longrightarrow> \<forall>j<length ms. \<not> ms ! j \<Longrightarrow>
           resolve = (Inl (ValueError (''Visible element not found: '' @ sel)), warned)"
proof -
  have cnt: "count (Locator p chain sel) s = (Inr (length ms), s)"
    using assms(1) by (simp add: count_def ms_def)
  show "ms = [] \<Longrightarrow> resolve = (Inl (ValueError (''Element not found: '' @ sel)), s)"
    using cnt by (simp add: resolve_def bind_def raise_def)
  show "length ms = 1 \<Longrightarrow> resolve = (Inr (Locator p chain sel), s)"
    using cnt by (simp add: resolve_def bind_def return_def)
  have open_w: "\<not> is_closed warned (page_of (Locator p chain sel))"
    using assms(1) by (simp add: warned_def)
  have ms_w: "dom warned p chain sel = ms"
    by (simp add: warned_def ms_def)
  have found: "first_visible (Locator p chain sel) [0..<length ms] sel warned
             = (Inr (Nth (Locator p chain sel) i), warned)"
    if "i < length ms" "ms ! i" "\<forall>j<i. \<not> ms ! j"
    using that open_w by (intro first_visible_first) (simp_all add: ms_w)
  have none: "first_visible (Locator p chain sel) [0..<length ms] sel warned
             = (Inl (ValueError (''Visible element not found: '' @ sel)), warned)"
    if "\<forall>j<length ms. \<not> ms ! j"
    using that open_w by (intro first_visible_none) (simp_all add: ms_w)
  show "length ms > 1 \<Longrightarrow> i < length ms \<Longrightarrow> ms ! i \<Longrightarrow> \<forall>j<i. \<not> ms ! j \<Longrightarrow>
           resolve = (Inr (Nth (Locator p chain sel) i), warned)"
    using cnt found [unfolded warned_def]
    by (auto simp add: resolve_def bind_def warned_def)
  show "length ms > 1 \<Longrightarrow> \<forall>j<length ms. \<not> ms ! j \<Longrightarrow>
           resolve = (Inl (ValueError (''Visible element not found: '' @ sel)), warned)"
    using cnt none [unfolded warned_def]
    by (auto simp add: resolve_def bind_def warned_def)
qed

lemma resolve_found:
  assumes "bind (count (Locator p chain sel))
           (\<lambda>n. if n = 0
                then raise (ValueError (''Element not found: '' @ sel))
                else if n > 1 then
                  (\<lambda>s. first_visible (Locator p chain sel) [0..<n] sel
                         (emit (Log WARNING (''Multiple elements found: '' @ sel
                                  @ ''. Selecting the first visible.'')) s))
                else return (Locator p chain sel)) s = (Inr l, s')"
  shows "dom s' = dom s
       \<and> (l = Locator p chain sel \<and> length (dom s p chain sel) = 1
          \<or> (\<exists>i. l = Nth (Locator p chain sel) i) \<and> length (dom s p chain sel) > 1
             \<and> matches (dom s) l = [True])"
proof (cases "is_closed s p")
  case True
  with assms show ?thesis by (simp add: bind_def count_def)
next
  case False
  let ?n = "length (dom s p chain sel)"
  have cnt: "count (Locator p chain sel) s = (Inr ?n, s)"
    using False by (simp add: count_def)
  consider "?n = 0" | "?n = 1" | "?n > 1" by linarith
  then show ?thesis
  proof cases
    case 1
    with assms cnt show ?thesis by (simp add: bind_def raise_def)
  next
    case 2
    with assms cnt show ?thesis by (auto simp: bind_def return_def)
  next
    case 3
    let ?warned = "emit (Log WARNING (''Multiple elements found: '' @ sel
                                  @ ''. Selecting the first visible.'')) s"
    have "first_visible (Locator p chain sel) [0..<?n] sel ?warned = (Inr l, s')"
    proof -
      have "dom s p chain sel \<noteq> []" using 3 by auto
      with assms cnt 3 show ?thesis by (simp add: bind_def)
    qed
    from first_visible_found [OF this]
    show ?thesis using 3 by auto
  qed
qed


text \<open>
  C4, as amended. A locator resolved from a selector string denotes exactly one
  element: either the sole match of the query, returned whether it is visible or
  hidden, or, when the query has several matches, one of them that is visible.
\<close>

theorem get_locator_resolves_one_element:
  assumes "get_locator (Str raw) selector_type iframe s = (Inr l, s')"
  shows "length (matches (dom s') l) = 1
       \<and> (\<exists>p chain.
            l = Locator p chain (get_selector raw selector_type)
              \<and> length (dom s p chain (get_selector raw selector_type)) = 1
            \<or> (\<exists>i. l = Nth (Locator p chain (get_selector raw selector_type)) i)
              \<and> length (dom s p chain (get_selector raw selector_type)) > 1
              \<and> matches (dom s) l = [True])"
proof -
  let ?sel = "get_selector raw selector_type"
  have main: "dom s' = dom s
       \<and> (l = Locator p chain ?sel \<and> length (dom s p chain ?sel) = 1
          \<or> (\<exists>i. l = Nth (Locator p chain ?sel) i) \<and> length (dom s p chain ?sel) > 1
             \<and> matches (dom s) l = [True])"
    if "iframe = None \<and> self_page s = Some p \<and> chain = [] \<or> iframe = Some (FrameLocator p chain)"
    for p chain
  proof -
    have "get_locator (Str raw) selector_type iframe s
       = bind (count (Locator p chain ?sel))
           (\<lambda>n. if n = 0
                then raise (ValueError (''Element not found: '' @ ?sel))
                else if n > 1 then
                  (\<lambda>s. first_visible (Locator p chain ?sel) [0..<n] ?sel
                         (emit (Log WARNING (''Multiple elements found: '' @ ?sel
                                  @ ''. Selecting the first visible.'')) s))
                else return (Locator p chain ?sel)) s"
      using that by (auto simp: get_locator_page get_locator_iframe)
    with assms show ?thesis
      using resolve_found [of p chain ?sel s l s'] by simp
  qed
  have "\<exists>p chain. iframe = None \<and> self_page s = Some p \<and> chain = []
          \<or> iframe = Some (FrameLocator p chain)"
  proof (cases iframe)
    case None
    with assms obtain p where "self_page s = Some p"
      by (cases "self_page s") (auto simp: get_locator_def bind_def page_def Let_def)
    with None show ?thesis by auto
  next
    case (Some f)
    then show ?thesis by (cases f) auto
  qed
  then obtain p chain where
    "iframe = None \<and> self_page s = Some p \<and> chain = [] \<or> iframe = Some (FrameLocator p chain)"
    by blast
  from main [OF this]
  have same: "dom s' = dom s"
    and alt: "l = Locator p chain ?sel \<and> length (dom s p chain ?sel) = 1
          \<or> (\<exists>i. l = Nth (Locator p chain ?sel) i) \<and> length (dom s p chain ?sel) > 1
             \<and> matches (dom s) l = [True]"
    by simp_all
  from alt have "length (matches (dom s) l) = 1"
  proof
    assume "l = Locator p chain ?sel \<and> length (dom s p chain ?sel) = 1"
    then show ?thesis by simp
  next
    assume "(\<exists>i. l = Nth (Locator p chain ?sel) i) \<and> length (dom s p chain ?sel) > 1
             \<and> matches (dom s) l = [True]"
    then have "matches (dom s) l = [True]" by simp
    then show ?thesis by simp
  qed
  with same alt show ?thesis by auto
qed

theorem get_locator_resolves_one_element_witness:
  "get_locator (Str ''banner'') ID None (ready []) = (Inr (Locator 3 [] ''#banner''), ready [])
   \<and> length (matches (dom (ready [])) (Locator 3 [] ''#banner'')) = 1
   \<and> (\<exists>p chain.
            Locator 3 [] ''#banner'' = Locator p chain (get_selector ''banner'' ID)
              \<and> length (dom (ready []) p chain (get_selector ''banner'' ID)) = 1
            \<or> (\<exists>i. Locator 3 [] ''#banner'' = Nth (Locator p chain (get_selector ''banner'' ID)) i)
              \<and> length (dom (ready []) p chain (get_selector ''banner'' ID)) > 1
              \<and> matches (dom (ready [])) (Locator 3 [] ''#banner'') = [True])"
proof -
  have run: "get_locator (Str ''banner'') ID None (ready [])
           = (Inr (Locator 3 [] ''#banner''), ready [])"
    by (simp add: get_locator_page [of _ 3] ready_fields bind_def count_def is_closed_def
        example_dom_def return_def)
  from get_locator_resolves_one_element [OF run] run show ?thesis by simp
qed

text \<open>
  C4 as stated fails: \<^verbatim>\<open>#banner\<close> matches one hidden element of the example page, and
  resolution returns it.
\<close>

theorem get_locator_returns_hidden_sole_match:
  "get_locator (Str ''banner'') ID None (ready []) = (Inr (Locator 3 [] ''#banner''), ready [])
   \<and> matches (dom (ready [])) (Locator 3 [] ''#banner'') = [False]
   \<and> is_visible (Locator 3 [] ''#banner'') (ready []) = (Inr False, ready [])"
  by (simp add: get_locator_page [of _ 3] ready_fields bind_def count_def is_closed_def
      example_dom_def return_def is_visible_def)

text \<open>
  C5. Resolution of a selector string on an open page, or inside a chain of frames
  of one: no match fails with "Element not found"; a sole match is returned; among
  several matches the first visible one in document order is returned; several
  matches of which none is visible fail with "Visible element not found".
\<close>

theorem get_locator_case_analysis:
  assumes "iframe = None \<and> self_page s = Some p \<and> chain = []
           \<or> iframe = Some (FrameLocator p chain)"
    and "\<not> is_closed s p"
  shows
    "let sel = get_selector raw selector_type;
         ms = dom s p chain sel;
         locator = Locator p chain sel;
         warned = emit (Log WARNING (''Multiple elements found: '' @ sel
                          @ ''. Selecting the first visible.'')) s;
         result = get_locator (Str raw) selector_type iframe s
     in (ms = [] \<longrightarrow> result = (Inl (ValueError (''Element not found: '' @ sel)), s))
      \<and> (length ms = 1 \<longrightarrow> result = (Inr locator, s) \<and> matches (dom s) locator = ms)
      \<and> (length ms > 1 \<and> i < length ms \<and> ms ! i \<and> (\<forall>j<i. \<not> ms ! j) \<longrightarrow>
           result = (Inr (Nth locator i), warned) \<and> matches (dom s) (Nth locator i) = [True])
      \<and> (length ms > 1 \<and> (\<forall>j<length ms. \<not> ms ! j) \<longrightarrow>
           result = (Inl (ValueError (''Visible element not found: '' @ sel)), warned))"
proof -
  let ?sel = "get_selector raw selector_type"
  have eq: "get_locator (Str raw) selector_type iframe s
       = bind (count (Locator p chain ?sel))
           (\<lambda>n. if n = 0
                then raise (ValueError (''Element not found: '' @ ?sel))
                else if n > 1 then
                  (\<lambda>s. first_visible (Locator p chain ?sel) [0..<n] ?sel
                         (emit (Log WARNING (''Multiple elements found: '' @ ?sel
                                  @ ''. Selecting the first visible.'')) s))
                else return (Locator p chain ?sel)) s"
    using assms(1) by (auto simp: get_locator_page get_locator_iframe)
  show ?thesis
    unfolding Let_def eq
    using resolve_counted [OF assms(2), of chain ?sel]
    by (auto simp: Let_def)
qed

theorem get_locator_case_analysis_witness:
  "get_locator (Str ''.nope'') CSS None (ready [])
     = (Inl (ValueError ''Element not found: .nope''), ready [])
   \<and> get_locator (Str ''login'') ID None (ready []) = (Inr (Locator 3 [] ''#login''), ready [])
   \<and> get_locator (Str ''.item'') CSS None (ready [])
     = (Inr (Nth (Locator 3 [] ''.item'') 1),
        emit (Log WARNING ''Multiple elements found: .item. Selecting the first visible.'')
          (ready []))
   \<and> get_locator (Str ''.ghost'') CSS (Some (FrameLocator 3 [''iframe''])) (ready [])
     = (Inl (ValueError ''Visible element not found: .ghost''),
        emit (Log WARNING ''Multiple elements found: .ghost. Selecting the first visible.'')
          (ready []))"
  using get_locator_case_analysis [of None "ready []" 3 "[]" "''.nope''" CSS 0]
    get_locator_case_analysis [of None "ready []" 3 "[]" "''login''" ID 0]
    get_locator_case_analysis [of None "ready []" 3 "[]" "''.item''" CSS 1]
    get_locator_case_analysis [of "Some (FrameLocator 3 [''iframe''])" "ready []" 3
      "[''iframe'']" "''.ghost''" CSS 0]
  by (simp add: ready_fields is_closed_def example_dom_def Let_def less_Suc_eq)

section \<open>Attempts and waits of the retry wrapper\<close>

lemma wait_exponential_values:
  "wait_exponential 1 1 30 1 = 1" "wait_exponential 1 1 30 2 = 2"
  "wait_exponential 1 1 30 3 = 4" "wait_exponential 1 1 30 4 = 8"
  by (simp_all add: wait_exponential_def)

lemma wait_exponential_formula:
  assumes "1 \<le> n"
  shows "wait_exponential 1 1 30 n = min (2 ^ (n - 1)) 30"
  by (simp add: wait_exponential_def max_def min_def)

lemma clamp_mono:
  assumes "a \<le> b"
  shows "max (1::nat) (min a 30) \<le> max 1 (min b 30)"
  using assms by (auto simp: max_def min_def)

lemma wait_exponential_mono:
  "wait_exponential 1 1 30 n \<le> wait_exponential 1 1 30 (Suc n)"
proof -
  have "(2::nat) ^ (n - 1) \<le> 2 ^ n" by (rule power_increasing) simp_all
  then have "max (1::nat) (min (2 ^ (n - 1)) 30) \<le> max 1 (min (2 ^ n) 30)"
    by (rule clamp_mono)
  then show ?thesis by (simp add: wait_exponential_def)
qed

lemma wait_exponential_bounds:
  "1 \<le> wait_exponential 1 1 30 n \<and> wait_exponential 1 1 30 n \<le> 30"
  by (simp add: wait_exponential_def)

text \<open>As long as the attempts fail and fewer than five were made, the wrapper goes on.\<close>

lemma retrying_skip:
  assumes "j < 5" and "\<forall>i<j. isl (fst (func (attempt_start func s i)))"
  shows "retrying func 1 s = retrying func (Suc j) (attempt_start func s j)"
  using assms
proof (induction j)
  case 0
  then show ?case by simp
next
  case (Suc j)
  then have eq: "retrying func 1 s = retrying func (Suc j) (attempt_start func s j)"
    by simp
  have "isl (fst (func (attempt_start func s j)))" using Suc.prems by simp
  then obtain e t where fail: "func (attempt_start func s j) = (Inl e, t)"
    by (cases "func (attempt_start func s j)") (auto simp: isl_def)
  have go: "\<not> stop_after_attempt 5 (Suc j)"
    using Suc.prems by (simp add: stop_after_attempt_def)
  show ?case
    unfolding eq
    by (subst retrying.simps) (simp add: fail go)
qed

lemma retrying_succeeds:
  assumes "k < 5" and "\<forall>j<k. isl (fst (func (attempt_start func s j)))"
    and "fst (func (attempt_start func s k)) = Inr v"
  shows "retry_with_backoff func s = (Inr v, snd (func (attempt_start func s k)))"
proof -
  have "retrying func 1 s = retrying func (Suc k) (attempt_start func s k)"
    using assms(1,2) by (rule retrying_skip)
  moreover obtain t where "func (attempt_start func s k) = (Inr v, t)"
    using assms(3) by (cases "func (attempt_start func s k)") simp
  ultimately show ?thesis
    by (simp add: retry_with_backoff_def retrying.simps [of func "Suc k"])
qed

lemma retrying_exhausted:
  assumes "\<forall>j<5. isl (fst (func (attempt_start func s j)))"
  shows "retry_with_backoff func s
       = (fst (func (attempt_start func s 4)),
          emit (After_log 5) (snd (func (attempt_start func s 4))))"
proof -
  have "retrying func 1 s = retrying func 5 (attempt_start func s 4)"
    using assms retrying_skip [of 4 func s] by simp
  moreover have "isl (fst (func (attempt_start func s 4)))" using assms by simp
  then obtain e t where "func (attempt_start func s 4) = (Inl e, t)"
    by (cases "func (attempt_start func s 4)") (auto simp: isl_def)
  ultimately show ?thesis
    by (simp add: retry_with_backoff_def retrying.simps [of func 5]
        stop_after_attempt_def)
qed

lemma backoffs_append [simp]: "backoffs (t @ u) = backoffs t @ backoffs u"
  by (simp add: backoffs_def)

lemma backoffs_Cons [simp]: "backoffs (ev # t) = backoff_of ev @ backoffs t"
  by (simp add: backoffs_def)

lemma backoffs_Nil [simp]: "backoffs [] = []"
  by (simp add: backoffs_def)

lemma backoffs_attempt_start:
  assumes "\<And>s. backoffs (trace (snd (func s))) = backoffs (trace s)"
  shows "backoffs (trace (attempt_start func s k))
       = backoffs (trace s) @ map (wait_exponential 1 1 30) [1..<Suc k]"
proof (induction k)
  case 0
  show ?case by simp
next
  case (Suc k)
  have "[1..<Suc (Suc k)] = [1..<Suc k] @ [Suc k]" by (rule upt_Suc_append) simp
  with Suc show ?case by (simp add: assms del: upt_Suc)
qed

lemma is_closed_emit: "is_closed (emit ev s) h = (ev = Close h \<or> is_closed s h)"
  by (auto simp: is_closed_def)

lemma is_closed_goto_outcomes [simp]: "is_closed (s\<lparr>goto_outcomes := r\<rparr>) h = is_closed s h"
  by (simp add: is_closed_def)

lemma emit_goto_outcomes:
  "(emit ev s)\<lparr>goto_outcomes := r\<rparr> = emit ev (s\<lparr>goto_outcomes := r\<rparr>)"
  by (simp add: emit_def)

lemma navigate_body_eval:
  assumes "self_page s = Some p" and "\<not> is_closed s p"
  shows "navigate_body url s =
     (case goto_outcomes s of
        [] \<Rightarrow> sleep (sleep_ms (self_settings s) * 3) (emit (Goto p url) s)
      | None # rest \<Rightarrow>
          sleep (sleep_ms (self_settings s) * 3)
            (emit (Goto p url) (s\<lparr>goto_outcomes := rest\<rparr>))
      | Some m # rest \<Rightarrow>
          (Inl (PlaywrightError m), emit (Goto p url) (s\<lparr>goto_outcomes := rest\<rparr>)))"
  using assms
  by (simp add: navigate_body_def bind_def page_def goto_def split: list.splits option.splits)

lemma all_less_4: "(\<forall>j<4. P j) = (P 0 \<and> P 1 \<and> P 2 \<and> P (3::nat))"
  by (auto simp: eval_nat_numeral less_Suc_eq)

lemma all_less_5: "(\<forall>j<5. P j) = (P 0 \<and> P 1 \<and> P 2 \<and> P 3 \<and> P (4::nat))"
  by (auto simp: eval_nat_numeral less_Suc_eq)

lemma attempt_start_numeral:
  "attempt_start func s 1 = emit (Backoff 1) (emit (After_log 1) (snd (func s)))"
  "attempt_start func s 2
     = emit (Backoff 2) (emit (After_log 2) (snd (func (attempt_start func s 1))))"
  "attempt_start func s 3
     = emit (Backoff 4) (emit (After_log 3) (snd (func (attempt_start func s 2))))"
  "attempt_start func s 4
     = emit (Backoff 8) (emit (After_log 4) (snd (func (attempt_start func s 3))))"
  by (simp_all add: eval_nat_numeral wait_exponential_def)

lemma navigate_body_backoffs:
  "backoffs (trace (snd (navigate_body url s))) = backoffs (trace s)"
  by (simp add: navigate_body_def bind_def page_def goto_def sleep_def
      split: option.splits list.splits)

text \<open>
  C6, as amended. The retry wrapper makes at most five attempts: what it returns is
  the outcome of one of the first five attempts, every earlier attempt having
  failed, and a failure is returned only from the fifth. A call whose first \<open>k < 5\<close>
  attempts fail and whose next attempt succeeds returns that value, in the state the
  successful attempt left, after exactly \<open>k\<close> waits; a call whose five attempts fail
  returns the fifth attempt's error itself. The wait after failed attempt \<open>n\<close>, before
  attempt \<open>n + 1\<close>, is \<open>min (2 ^ (n - 1)) 30\<close> seconds: 1, 2, 4 and 8 seconds for the
  four waits, never decreasing, at least 1 and at most 30.
\<close>

theorem retry_with_backoff_attempts_and_waits:
  "(\<exists>k<5. fst (retry_with_backoff func s) = fst (func (attempt_start func s k))
          \<and> (\<forall>j<k. isl (fst (func (attempt_start func s j))))
          \<and> (isl (fst (func (attempt_start func s k))) \<longrightarrow> k = 4))
   \<and> (k < 5 \<and> (\<forall>j<k. isl (fst (func (attempt_start func s j))))
        \<and> fst (func (attempt_start func s k)) = Inr v
      \<longrightarrow> retry_with_backoff func s = (Inr v, snd (func (attempt_start func s k))))
   \<and> ((\<forall>j<5. isl (fst (func (attempt_start func s j))))
      \<longrightarrow> retry_with_backoff func s
          = (fst (func (attempt_start func s 4)),
             emit (After_log 5) (snd (func (attempt_start func s 4)))))
   \<and> ((\<forall>s. backoffs (trace (snd (func s))) = backoffs (trace s))
      \<longrightarrow> backoffs (trace (snd (func (attempt_start func s k))))
          = backoffs (trace s) @ map (wait_exponential 1 1 30) [1..<Suc k])
   \<and> map (wait_exponential 1 1 30) [1..<5] = [1, 2, 4, 8]
   \<and> (1 \<le> n \<longrightarrow> wait_exponential 1 1 30 n = min (2 ^ (n - 1)) 30)
   \<and> wait_exponential 1 1 30 n \<le> wait_exponential 1 1 30 (Suc n)
   \<and> 1 \<le> wait_exponential 1 1 30 n \<and> wait_exponential 1 1 30 n \<le> 30"
proof -
  let ?fails = "\<lambda>j. isl (fst (func (attempt_start func s j)))"
  have bounded: "\<exists>k<5. fst (retry_with_backoff func s) = fst (func (attempt_start func s k))
          \<and> (\<forall>j<k. ?fails j) \<and> (?fails k \<longrightarrow> k = 4)"
  proof (cases "\<forall>j<5. ?fails j")
    case True
    then have "fst (retry_with_backoff func s) = fst (func (attempt_start func s 4))"
      by (simp add: retrying_exhausted)
    with True show ?thesis by (intro exI [of _ 4]) simp
  next
    case False
    then obtain j where j: "j < 5" "\<not> ?fails j" by blast
    define k where "k = (LEAST j. \<not> ?fails j)"
    have k: "\<not> ?fails k" unfolding k_def using j(2) by (rule LeastI)
    have before: "\<forall>i<k. ?fails i" unfolding k_def using not_less_Least by blast
    have "k \<le> j" unfolding k_def using j(2) by (rule Least_le)
    with j have k5: "k < 5" by simp
    from k obtain v where v: "fst (func (attempt_start func s k)) = Inr v"
      by (cases "fst (func (attempt_start func s k))") simp_all
    have "retry_with_backoff func s = (Inr v, snd (func (attempt_start func s k)))"
      using k5 before v by (rule retrying_succeeds)
    with v k k5 before show ?thesis by (intro exI [of _ k]) simp
  qed
  have succeeds: "k < 5 \<and> (\<forall>j<k. ?fails j) \<and> fst (func (attempt_start func s k)) = Inr v
      \<longrightarrow> retry_with_backoff func s = (Inr v, snd (func (attempt_start func s k)))"
    using retrying_succeeds [of k func s v] by blast
  have exhausted: "(\<forall>j<5. ?fails j)
      \<longrightarrow> retry_with_backoff func s
          = (fst (func (attempt_start func s 4)),
             emit (After_log 5) (snd (func (attempt_start func s 4))))"
    using retrying_exhausted [of func s] by blast
  have waits: "(\<forall>s. backoffs (trace (snd (func s))) = backoffs (trace s))
      \<longrightarrow> backoffs (trace (snd (func (attempt_start func s k))))
          = backoffs (trace s) @ map (wait_exponential 1 1 30) [1..<Suc k]"
    using backoffs_attempt_start [of func s k] by simp
  have four: "map (wait_exponential 1 1 30) [1..<5] = [1, 2, 4, 8]"
    by (simp add: upt_conv_Cons wait_exponential_def)
  have formula: "1 \<le> n \<longrightarrow> wait_exponential 1 1 30 n = min (2 ^ (n - 1)) 30"
    using wait_exponential_formula [of n] by simp
  show ?thesis
    using bounded succeeds exhausted waits four formula
      wait_exponential_mono [of n] wait_exponential_bounds [of n]
    by blast
qed

theorem retry_with_backoff_attempts_and_waits_witness:
  "fst (retry_with_backoff (navigate_body ''u'')
          (ready [Some ''e1'', Some ''e2'', Some ''e3'', Some ''e4''])) = Inr ()
   \<and> backoffs (trace (snd (retry_with_backoff (navigate_body ''u'')
          (ready [Some ''e1'', Some ''e2'', Some ''e3'', Some ''e4''])))) = [1, 2, 4, 8]
   \<and> fst (retry_with_backoff (navigate_body ''u'')
          (ready [Some ''e1'', Some ''e2'', Some ''e3'', Some ''e4'', Some ''e5'']))
       = Inl (PlaywrightError ''e5'')
   \<and> backoffs (trace (snd (retry_with_backoff (navigate_body ''u'')
          (ready [Some ''e1'', Some ''e2'', Some ''e3'', Some ''e4'', Some ''e5''])))) = [1, 2, 4, 8]
   \<and> wait_exponential 1 1 30 4 = min (2 ^ (4 - 1)) 30"
proof -
  let ?f = "navigate_body ''u''"
  let ?a = "ready [Some ''e1'', Some ''e2'', Some ''e3'', Some ''e4'']"
  let ?b = "ready [Some ''e1'', Some ''e2'', Some ''e3'', Some ''e4'', Some ''e5'']"
  note eval = attempt_start_numeral navigate_body_eval [of _ 3] ready_fields is_closed_emit
    is_closed_def sleep_def default_settings_def
  have quiet: "\<forall>s. backoffs (trace (snd (?f s))) = backoffs (trace s)"
    by (simp add: navigate_body_backoffs)
  have a_fails: "\<forall>j<4. isl (fst (?f (attempt_start ?f ?a j)))"
    by (simp add: all_less_4 eval)
  have a_last: "fst (?f (attempt_start ?f ?a 4)) = Inr ()"
    by (simp add: eval)
  have b_fails: "\<forall>j<5. isl (fst (?f (attempt_start ?f ?b j)))"
    by (simp add: all_less_5 eval)
  have b_last: "fst (?f (attempt_start ?f ?b 4)) = Inl (PlaywrightError ''e5'')"
    by (simp add: eval)
  have start: "backoffs (trace ?a) = []" "backoffs (trace ?b) = []"
    by (simp_all add: ready_fields)
  have "retry_with_backoff ?f ?a = (Inr (), snd (?f (attempt_start ?f ?a 4)))"
    and "backoffs (trace (snd (?f (attempt_start ?f ?a 4)))) = [1, 2, 4, 8]"
    and "wait_exponential 1 1 30 4 = min (2 ^ (4 - 1)) 30"
    using retry_with_backoff_attempts_and_waits [of ?f ?a 4 "()" 4] quiet a_fails a_last start
    by simp_all
  moreover
  have "retry_with_backoff ?f ?b
         = (Inl (PlaywrightError ''e5''), emit (After_log 5) (snd (?f (attempt_start ?f ?b 4))))"
    and "backoffs (trace (snd (?f (attempt_start ?f ?b 4)))) = [1, 2, 4, 8]"
    using retry_with_backoff_attempts_and_waits [of ?f ?b 4 "()" 4] quiet b_fails b_last start
    by simp_all
  ultimately show ?thesis by simp
qed

text \<open>
  C6 as stated fails in its formula for the waits: a call that fails once waits 1 second
  before its second attempt, where the specification's formula gives 2 seconds.
\<close>

theorem retry_with_backoff_first_wait_is_one_second:
  "fst (retry_with_backoff (navigate_body ''u'') (ready [Some ''e1''])) = Inr ()
   \<and> backoffs (trace (snd (retry_with_backoff (navigate_body ''u'') (ready [Some ''e1''])))) = [1]
   \<and> spec_wait 1 = 2"
proof -
  let ?f = "navigate_body ''u''"
  let ?s = "ready [Some ''e1'']"
  note eval = attempt_start_numeral navigate_body_eval [of _ 3] ready_fields is_closed_emit
    is_closed_def sleep_def default_settings_def
  have "isl (fst (?f ?s))" by (simp add: eval)
  moreover have "fst (?f (attempt_start ?f ?s 1)) = Inr ()" by (simp add: eval)
  ultimately have "retry_with_backoff ?f ?s = (Inr (), snd (?f (attempt_start ?f ?s 1)))"
    by (intro retrying_succeeds) simp_all
  moreover have "backoffs (trace (snd (?f (attempt_start ?f ?s 1)))) = [1]"
    by (simp add: navigate_body_backoffs attempt_start_numeral ready_fields
        wait_exponential_def)
  ultimately show ?thesis by (simp add: spec_wait_def)
qed

section \<open>Reports of a wrapped call\<close>

lemma reports_append [simp]: "reports (t @ u) = reports t @ reports u"
  by (simp add: reports_def)

lemma reports_Cons [simp]: "reports (ev # t) = (if is_report ev then ev # reports t else reports t)"
  by (simp add: reports_def)

lemma reports_Nil [simp]: "reports [] = []"
  by (simp add: reports_def)













section \<open>Teardown and navigation in the main flow\<close>

lemma released_append [simp]: "released (t @ u) = released t @ released u"
  by (simp add: released_def)

lemma released_Cons [simp]: "released (ev # t) = release_of ev @ released t"
  by (simp add: released_def)

lemma released_Nil [simp]: "released [] = []"
  by (simp add: released_def)

lemma setup_engine_eq:
  "setup_engine s =
     (Inr (),
      s\<lparr>fresh := fresh s + 4,
        trace := trace s
          @ [Start (fresh s),
             Launch (fresh s + 1) (browser_type (self_settings s)) (headless (self_settings s))]
          @ (if take_video (self_settings s) then [Mkdir (video_dir (self_settings s))] else [])
          @ [New_context (fresh s + 2)
               (if take_video (self_settings s) then Some (video_dir (self_settings s)) else None),
             Set_default_timeout (fresh s + 2) (timeout_ms (self_settings s)),
             New_page (fresh s + 3)],
        self_playwright := Some (fresh s),
        self_browser := Some (fresh s + 1),
        self_context := Some (fresh s + 2),
        self_page := Some (fresh s + 3)\<rparr>)"
  by (simp add: setup_engine_def new_handle_def emit_def Let_def)

lemma setup_engine_fields:
  "fst (setup_engine s) = Inr ()"
  "self_page (snd (setup_engine s)) = Some (fresh s + 3)"
  "self_settings (snd (setup_engine s)) = self_settings s"
  "http (snd (setup_engine s)) = http s"
  "dom (snd (setup_engine s)) = dom s"
  "goto_outcomes (snd (setup_engine s)) = goto_outcomes s"
  "released (trace (snd (setup_engine s))) = released (trace s)"
  "reports (trace (snd (setup_engine s))) = reports (trace s)"
  by (simp_all add: setup_engine_eq)

lemma teardown_eq:
  "teardown s =
     (Inr (),
      s\<lparr>trace := trace s
          @ (case self_page s of Some h \<Rightarrow> [Close h] | None \<Rightarrow> [])
          @ (case self_context s of Some h \<Rightarrow> [Close h] | None \<Rightarrow> [])
          @ (case self_browser s of Some h \<Rightarrow> [Close h] | None \<Rightarrow> [])
          @ (case self_playwright s of Some h \<Rightarrow> [Stop h] | None \<Rightarrow> [])\<rparr>)"
  by (simp add: teardown_def emit_def Let_def split: option.splits)


text \<open>The main flow after the engine is set up, by the answer of the service.\<close>

lemma main_unfold:
  "main cfg w =
     (let s1 = snd (setup_engine (PlaywrightEngine cfg w));
          url = removesuffix (tidalidarr_url cfg) ''/'' @ ''/auth'';
          s2 = emit (Http_get url) s1
      in case http w url of
           Inl e \<Rightarrow> (Inl e, s2)
         | Inr r \<Rightarrow>
             (case raise_for_status r s2 of
                (Inl e, s3) \<Rightarrow> (Inl e, s3)
              | (Inr u, s3) \<Rightarrow>
                  if \<not> contains (response_text r) ''https://link.tidal.com''
                  then (Inr (), emit (Log INFO ''Authorization does not seem required'') s3)
                  else navigate (strip (response_text r))
                         (emit (Log INFO (''Authorization is required, URL: ''
                                           @ strip (response_text r))) s3)))"
proof -
  have su: "setup_engine (PlaywrightEngine cfg w) = (Inr (), snd (setup_engine (PlaywrightEngine cfg w)))"
    by (simp add: setup_engine_eq)
  have h: "http (snd (setup_engine (PlaywrightEngine cfg w))) = http w"
    by (simp add: setup_engine_fields PlaywrightEngine_def)
  show ?thesis
    unfolding main_def Let_def
    apply (subst bind_def)
    apply (subst su)
    apply (simp add: bind_def requests_get_def h logger_info_def split: sum.splits prod.splits)
    done
qed

lemma raise_for_status_state: "snd (raise_for_status r s) = s"
  by (simp add: raise_for_status_def raise_def return_def)


lemma navigate_body_released:
  "released (trace (snd (navigate_body url s))) = released (trace s)"
  by (simp add: navigate_body_def bind_def page_def goto_def sleep_def
      split: option.splits list.splits)

lemma navigate_released:
  "released (trace (snd (navigate url s))) = released (trace s)"
proof -
  let ?s1 = "report (''Calling '' @ func_call ''navigate'' [Plain url] []) None s"
  have inner: "released (trace (snd (retrying (navigate_body url) 1 ?s1))) = released (trace ?s1)"
    by (rule retrying_invariant [where obs = "\<lambda>s. released (trace s)"])
       (simp_all add: navigate_body_released)
  show ?thesis
  proof (cases "retrying (navigate_body url) 1 ?s1")
    case (Pair r s2)
    with inner show ?thesis
      by (cases r)
        (simp_all add: navigate_def report_status_def retry_with_backoff_def report_def Let_def)
  qed
qed


lemma main_released: "released (trace (snd (main cfg w))) = released (trace w)"
proof -
  let ?s1 = "snd (setup_engine (PlaywrightEngine cfg w))"
  have s1: "released (trace ?s1) = released (trace w)"
    by (simp add: setup_engine_fields PlaywrightEngine_def)
  show ?thesis
    by (simp add: main_unfold Let_def s1 navigate_released raise_for_status_def raise_def
        return_def split: sum.splits)
qed

text \<open>
  C8, as amended. The main flow never tears the session down: whatever the service
  answers and whether or not navigation succeeds, the run ends with no handle closed
  or stopped that was not so before.
\<close>

theorem main_releases_nothing:
  "released (trace (snd (main cfg w))) = released (trace w)"
  by (rule main_released)

text \<open>
  C8 as stated fails: when the service's answer holds no link, the main flow returns
  normally with the page that \<^verbatim>\<open>setup\<close> opened still held and nothing released,
  where a call of \<^verbatim>\<open>teardown\<close> would have released the four handles.
\<close>

theorem main_leaves_session_open:
  "fst (main default_settings (example_world [] ''ok'')) = Inr ()
   \<and> self_page (snd (main default_settings (example_world [] ''ok''))) = Some 3
   \<and> released (trace (snd (main default_settings (example_world [] ''ok'')))) = []
   \<and> released (trace (snd (teardown (snd (main default_settings (example_world [] ''ok''))))))
       = [3, 2, 1, 0]"
  by (simp add: main_unfold Let_def setup_engine_eq teardown_eq PlaywrightEngine_def
      example_world_def default_settings_def removesuffix_def endswith_def
      raise_for_status_def return_def emit_def)




section \<open>The session's lifecycle\<close>










end
